theory Spec2Isabelle
  imports Main "HOL-Library.Word"
begin

section \<open>JavaScript strings\<close>

text \<open>
  A JavaScript string is a sequence of 16-bit code units, and the regular expressions of
  \<^verbatim>\<open>index.js\<close> (none has the \<^verbatim>\<open>u\<close> flag) work on code units. ASCII literals of
  the source are written \<open>js ''...''\<close>.
\<close>

type_synonym jschar = "16 word"
type_synonym jsstring = "jschar list"

definition js :: "string \<Rightarrow> jsstring" where
  "js s = map (\<lambda>c. word_of_nat (of_char c)) s"

definition LF :: jschar where
  "LF = 0x0A"

text \<open>The class \<^verbatim>\<open>\s\<close>: the white space and the line terminators of ECMAScript.\<close>

definition is_space :: "jschar \<Rightarrow> bool" where
  "is_space c \<longleftrightarrow>
     c = 0x09 \<or> c = 0x0A \<or> c = 0x0B \<or> c = 0x0C \<or> c = 0x0D \<or> c = 0x20 \<or> c = 0xA0
     \<or> c = 0x1680 \<or> (0x2000 \<le> c \<and> c \<le> 0x200A) \<or> c = 0x2028 \<or> c = 0x2029
     \<or> c = 0x202F \<or> c = 0x205F \<or> c = 0x3000 \<or> c = 0xFEFF"

text \<open>The code units that \<^verbatim>\<open>.\<close> does not match: the line terminators.\<close>

definition is_line_terminator :: "jschar \<Rightarrow> bool" where
  "is_line_terminator c \<longleftrightarrow> c = 0x0A \<or> c = 0x0D \<or> c = 0x2028 \<or> c = 0x2029"

definition is_upper :: "jschar \<Rightarrow> bool" where
  "is_upper c \<longleftrightarrow> 0x41 \<le> c \<and> c \<le> 0x5A"

definition is_lower :: "jschar \<Rightarrow> bool" where
  "is_lower c \<longleftrightarrow> 0x61 \<le> c \<and> c \<le> 0x7A"

definition is_digit :: "jschar \<Rightarrow> bool" where
  "is_digit c \<longleftrightarrow> 0x30 \<le> c \<and> c \<le> 0x39"

text \<open>\<^verbatim>\<open>Array.prototype.join\<close> on an array of strings.\<close>

fun js_join :: "jsstring \<Rightarrow> jsstring list \<Rightarrow> jsstring" where
  "js_join sep [] = []"
| "js_join sep [x] = x"
| "js_join sep (x # y # ys) = x @ sep @ js_join sep (y # ys)"

text \<open>
  \<^verbatim>\<open>s.split("\n")\<close>: the pieces of \<open>s\<close> between line feeds; never the empty array
  (\<^verbatim>\<open>"".split("\n")\<close> is \<^verbatim>\<open>[""]\<close>).
\<close>

fun split_lines :: "jsstring \<Rightarrow> jsstring list" where
  "split_lines [] = [[]]"
| "split_lines (c # cs) =
     (if c = LF then [] # split_lines cs
      else (case split_lines cs of
              [] \<Rightarrow> [[c]]
            | l # ls \<Rightarrow> (c # l) # ls))"

section \<open>Slug generator\<close>

text \<open>
  \<^verbatim>\<open>
  const toSlug = title => title
      .replace(/[^a-zA-Z0-9_ ]/g, '')
      .replace(/\s+/g, "_")
  \<close>
\<close>

text \<open>The code units that the class \<^verbatim>\<open>[^a-zA-Z0-9_ ]\<close> does not match, which stay.\<close>

definition slug_keep :: "jschar \<Rightarrow> bool" where
  "slug_keep c \<longleftrightarrow> is_lower c \<or> is_upper c \<or> is_digit c \<or> c = 0x5F \<or> c = 0x20"

text \<open>\<^verbatim>\<open>.replace(/\s+/g, "_")\<close>: every maximal run of white space becomes one underscore.\<close>

function replace_spaces :: "jsstring \<Rightarrow> jsstring" where
  "replace_spaces [] = []"
| "replace_spaces (c # cs) =
     (if is_space c then 0x5F # replace_spaces (dropWhile is_space cs)
      else c # replace_spaces cs)"
  by pat_completeness auto
termination
  by (relation "measure length") (auto simp: length_dropWhile_le less_Suc_eq_le)

definition toSlug :: "jsstring \<Rightarrow> jsstring" where
  "toSlug title = replace_spaces (filter slug_keep title)"

text \<open>The characters \<^verbatim>\<open>[A-Za-z0-9_]\<close>.\<close>

definition slug_char :: "jschar \<Rightarrow> bool" where
  "slug_char c \<longleftrightarrow> is_lower c \<or> is_upper c \<or> is_digit c \<or> c = 0x5F"

section \<open>Notes\<close>

text \<open>
  The raw note is the JSON object of one exported note. Every field but the body may be
  absent from the object; reading an absent field gives \<^verbatim>\<open>undefined\<close>, here \<open>None\<close>.
\<close>

record annotation =
  url :: jsstring

record label =
  label_name :: jsstring

record raw_note =
  title :: "jsstring option"
  textContent :: "jsstring option"
  labels :: "label list option"
  annotations :: "annotation list option"

text \<open>The heading of a parsed note: the boolean \<^verbatim>\<open>true\<close>, or a string.\<close>

datatype heading = HTrue | HText jsstring

text \<open>The object that \<^verbatim>\<open>parseNote\<close> returns.\<close>

record parsed_note =
  p_title :: jsstring
  p_heading :: heading
  p_content :: jsstring
  p_source :: jsstring
  p_labels :: jsstring
  p_filename :: jsstring

datatype error = IOError | ParseError | TypeError | RenderError | GlobError

section \<open>Note parser\<close>

text \<open>
  \<^verbatim>\<open>path.basename(p)\<close> (POSIX): trailing slashes are dropped, and the result is what
  follows the last remaining slash.
\<close>

definition basename :: "jsstring \<Rightarrow> jsstring" where
  "basename p =
     rev (takeWhile (\<lambda>c. c \<noteq> 0x2F) (dropWhile (\<lambda>c. c = 0x2F) (rev p)))"

text \<open>
  \<^verbatim>\<open>s.replace(pat, rep)\<close> with a string pattern: the first occurrence of \<open>pat\<close> in \<open>s\<close>
  is replaced, and nothing else.
\<close>

fun replace_first :: "jsstring \<Rightarrow> jsstring \<Rightarrow> jsstring \<Rightarrow> jsstring" where
  "replace_first pat rep [] = (if pat = [] then rep else [])"
| "replace_first pat rep (c # cs) =
     (if take (length pat) (c # cs) = pat then rep @ drop (length pat) (c # cs)
      else c # replace_first pat rep cs)"

text \<open>
  Matching under the flag \<^verbatim>\<open>i\<close> compares canonicalized code units. On ASCII the
  canonical form is the upper-case letter; a code unit outside ASCII is never
  canonicalized to an ASCII one, so against the ASCII pattern \<^verbatim>\<open>Source:\<close> it is enough
  to leave it as it is.
\<close>

definition canonicalize :: "jschar \<Rightarrow> jschar" where
  "canonicalize c = (if is_lower c then c - 0x20 else c)"

text \<open>
  \<^verbatim>\<open>/Source:\s+(?<path>.*)/i\<close> tried at the start of \<open>s\<close>: the seven code units of
  \<^verbatim>\<open>Source:\<close> in any case, then the longest run of white space, which must not be empty,
  then the longest run of code units that are not line terminators, which is the group.
  Both runs are greedy and nothing follows them in the pattern, so there is no
  backtracking. The result is the group and what follows the match.
\<close>

definition source_at :: "jsstring \<Rightarrow> (jsstring \<times> jsstring) option" where
  "source_at s =
     (let r = drop 7 s in
      if map canonicalize (take 7 s) = map canonicalize (js ''Source:'')
         \<and> r \<noteq> [] \<and> is_space (hd r)
      then
        (let t = dropWhile is_space r in
         Some (takeWhile (\<lambda>c. \<not> is_line_terminator c) t,
               dropWhile (\<lambda>c. \<not> is_line_terminator c) t))
      else None)"

text \<open>
  The first match of the pattern in \<open>s\<close>, from the left: what precedes the match, the
  group, and what follows the match.
\<close>

fun source_search :: "jsstring \<Rightarrow> (jsstring \<times> jsstring \<times> jsstring) option" where
  "source_search [] = None"
| "source_search (c # cs) =
     (case source_at (c # cs) of
        Some (g, post) \<Rightarrow> Some ([], g, post)
      | None \<Rightarrow>
          (case source_search cs of
             None \<Rightarrow> None
           | Some (pre, g, post) \<Rightarrow> Some (c # pre, g, post)))"

text \<open>
  Whether \<^verbatim>\<open>/# (.*)/\<close> matches somewhere in \<open>s\<close>: the group may be empty, so the pattern
  matches wherever \<^verbatim>\<open>#\<close> and a space stand.
\<close>

fun heading_search :: "jsstring \<Rightarrow> bool" where
  "heading_search [] = False"
| "heading_search (c # cs) = (take 2 (c # cs) = js ''# '' \<or> heading_search cs)"

text \<open>
  \<^verbatim>\<open>
  const parseNote = (npath, note) => {
      let noteContent = note.textContent;
      const noteTitle = note.title || path.basename(npath).replace(".json", "");
      const source = noteContent.match(/Source:\s+(?<path>.*)/i);
      let noteSource = source ? source.groups.path : null;
      if (noteSource === null) {
          noteSource = "annotations" in note
              ? note.annotations.map(a => a.url).join(", ")
              : "N/A";
      } else {
          noteContent = noteContent.replace(/Source:\s+(.*)/i, "");
      }
      const heading = noteContent.split("\n").slice(0, 3).join().match(/# (.*)/);
      const noteHeading = heading ? true : noteTitle;
      const noteLabels = (note.labels || []).map(label => label.name).join(", ");
      return { title: noteTitle, heading: noteHeading, content: noteContent,
               source: noteSource, labels: noteLabels, filename: toSlug(noteTitle) };
  };
  \<close>
  A note without \<^verbatim>\<open>textContent\<close> makes \<^verbatim>\<open>noteContent.match\<close> throw a TypeError.
\<close>

definition note_title :: "jsstring \<Rightarrow> raw_note \<Rightarrow> jsstring" where
  "note_title npath note =
     (case title note of
        None \<Rightarrow> replace_first (js ''.json'') [] (basename npath)
      | Some t \<Rightarrow> if t = [] then replace_first (js ''.json'') [] (basename npath) else t)"

definition parseNote :: "jsstring \<Rightarrow> raw_note \<Rightarrow> error + parsed_note" where
  "parseNote npath note =
     (let noteTitle = note_title npath note in
      case textContent note of
        None \<Rightarrow> Inl TypeError
      | Some body \<Rightarrow>
          (let (noteSource, noteContent) =
                 (case source_search body of
                    None \<Rightarrow>
                      (case annotations note of
                         Some as \<Rightarrow> js_join (js '', '') (map url as)
                       | None \<Rightarrow> js ''N/A'',
                       body)
                  | Some (pre, path, post) \<Rightarrow> (path, pre @ post));
               noteHeading =
                 (if heading_search (js_join (js '','') (take 3 (split_lines noteContent)))
                  then HTrue else HText noteTitle);
               noteLabels =
                 js_join (js '', '')
                   (map label_name (case labels note of None \<Rightarrow> [] | Some ls \<Rightarrow> ls))
           in Inr \<lparr>p_title = noteTitle, p_heading = noteHeading, p_content = noteContent,
                   p_source = noteSource, p_labels = noteLabels,
                   p_filename = toSlug noteTitle\<rparr>))"

section \<open>Document templater\<close>

text \<open>
  \<^verbatim>\<open>
  const notePdfTpl = note => {
      const { heading, content, source, labels } = note;
      let tpl = heading !== true ? `# ${heading}\n\n` : "";
      tpl += `${content}\n\n----\nSource: ${source}\n\nLabels: ${labels}`;
      return tpl;
  };
  \<close>
\<close>

definition notePdfTpl :: "parsed_note \<Rightarrow> jsstring" where
  "notePdfTpl note =
     (case p_heading note of
        HTrue \<Rightarrow> []
      | HText h \<Rightarrow> js ''# '' @ h @ [LF, LF])
     @ p_content note @ [LF, LF] @ js ''----'' @ [LF] @ js ''Source: '' @ p_source note
     @ [LF, LF] @ js ''Labels: '' @ p_labels note"

section \<open>Files, console and external collaborators\<close>

text \<open>What the script prints, one entry for each \<^verbatim>\<open>console.log\<close>.\<close>

datatype log_line =
  Processing jsstring
| Skipping jsstring
| Error jsstring error
| Completed nat

text \<open>
  The file system the script works on: the contents of every file by path, which paths
  can be read and which can be written, and the console so far.
\<close>

record world =
  files :: "jsstring \<rightharpoonup> jsstring"
  can_read :: "jsstring \<Rightarrow> bool"
  can_write :: "jsstring \<Rightarrow> bool"
  console :: "log_line list"

text \<open>
  The collaborators that are not code of the script: \<^verbatim>\<open>JSON.parse\<close>, the Markdown to
  PDF engine behind \<^verbatim>\<open>mdToPdf\<close> (a PDF document for a Markdown text, or a failure), and
  \<^verbatim>\<open>glob("./keep/*.json")\<close>.
\<close>

record env =
  json_parse :: "jsstring \<Rightarrow> error + raw_note"
  render :: "jsstring \<Rightarrow> error + jsstring"
  glob :: "world \<Rightarrow> error + jsstring list"

definition console_log :: "log_line \<Rightarrow> world \<Rightarrow> world" where
  "console_log l w = w\<lparr>console := console w @ [l]\<rparr>"

definition existsSync :: "world \<Rightarrow> jsstring \<Rightarrow> bool" where
  "existsSync w p \<longleftrightarrow> files w p \<noteq> None"

text \<open>\<^verbatim>\<open>await fs.readFile(p, { encoding: "utf8" })\<close>.\<close>

definition readFile :: "world \<Rightarrow> jsstring \<Rightarrow> error + jsstring" where
  "readFile w p =
     (case files w p of
        None \<Rightarrow> Inl IOError
      | Some c \<Rightarrow> if can_read w p then Inr c else Inl IOError)"

text \<open>\<^verbatim>\<open>await fs.writeFile(p, data)\<close>, with the default flag \<^verbatim>\<open>w\<close>: the file is replaced.\<close>

definition writeFile :: "world \<Rightarrow> jsstring \<Rightarrow> jsstring \<Rightarrow> error + world" where
  "writeFile w p d =
     (if can_write w p then Inr (w\<lparr>files := (files w)(p \<mapsto> d)\<rparr>) else Inl IOError)"

section \<open>Note reader and document writers\<close>

text \<open>
  \<^verbatim>\<open>
  const openNote = async npath => {
      const data = await fs.readFile(npath, { encoding: "utf8" });
      return JSON.parse(data);
  };
  \<close>
\<close>

definition openNote :: "env \<Rightarrow> world \<Rightarrow> jsstring \<Rightarrow> error + raw_note" where
  "openNote env w npath =
     (case readFile w npath of
        Inl e \<Rightarrow> Inl e
      | Inr data \<Rightarrow> json_parse env data)"

text \<open>
  \<^verbatim>\<open>
  const noteToPdf = async (filename, content) =>
      mdToPdf({ content }, { dest: `./generated/${filename}.pdf`, pdf_options: { timeout: 0 } });
  \<close>
\<close>

definition pdf_path :: "jsstring \<Rightarrow> jsstring" where
  "pdf_path filename = js ''./generated/'' @ filename @ js ''.pdf''"

definition md_path :: "jsstring \<Rightarrow> jsstring" where
  "md_path filename = js ''./generated/'' @ filename @ js ''.md''"

definition noteToPdf :: "env \<Rightarrow> world \<Rightarrow> jsstring \<Rightarrow> jsstring \<Rightarrow> error + world" where
  "noteToPdf env w filename content =
     (case render env content of
        Inl e \<Rightarrow> Inl e
      | Inr pdf \<Rightarrow> writeFile w (pdf_path filename) pdf)"

text \<open>
  \<^verbatim>\<open>
  const noteSaveToMd = async (filename, content) =>
      fs.writeFile(`./generated/${filename}.md`, content);
  \<close>
\<close>

definition noteSaveToMd :: "world \<Rightarrow> jsstring \<Rightarrow> jsstring \<Rightarrow> error + world" where
  "noteSaveToMd w filename content = writeFile w (md_path filename) content"

section \<open>Processed ledger\<close>

definition processed_txt :: jsstring where
  "processed_txt = js ''./processed.txt''"

text \<open>
  \<^verbatim>\<open>
  const getProcessed = async () => {
      if (!fsn.existsSync("./processed.txt")) {
          return [];
      }
      const contents = await fs.readFile("./processed.txt", { encoding: "utf8" });
      return contents.split("\n");
  };
  \<close>
\<close>

definition getProcessed :: "world \<Rightarrow> error + jsstring list" where
  "getProcessed w =
     (if \<not> existsSync w processed_txt then Inr []
      else (case readFile w processed_txt of
              Inl e \<Rightarrow> Inl e
            | Inr contents \<Rightarrow> Inr (split_lines contents)))"

text \<open>
  \<^verbatim>\<open>
  const updateProcessed = async processed =>
      fs.writeFile("./processed.txt", processed.join("\n"), { encoding: "utf8", flag: "w" });
  \<close>
  The call starts one write; \<open>updateProcessed_write\<close> is that write, path and data, and
  \<open>updateProcessed\<close> is the call run to the end, as under \<^verbatim>\<open>await\<close>.
\<close>

definition updateProcessed_write :: "jsstring list \<Rightarrow> jsstring \<times> jsstring" where
  "updateProcessed_write processed = (processed_txt, js_join [LF] processed)"

definition updateProcessed :: "world \<Rightarrow> jsstring list \<Rightarrow> error + world" where
  "updateProcessed w processed =
     (case updateProcessed_write processed of (p, d) \<Rightarrow> writeFile w p d)"

text \<open>
  The round trip of the ledger: \<open>resave\<close> is \<^verbatim>\<open>save(load())\<close>, that is
  \<^verbatim>\<open>await updateProcessed(await getProcessed())\<close>, and \<open>ledger_round_trip\<close> does it twice
  and loads the ledger again.
\<close>

definition resave :: "world \<Rightarrow> error + world" where
  "resave w =
     (case getProcessed w of
        Inl e \<Rightarrow> Inl e
      | Inr ledger \<Rightarrow> updateProcessed w ledger)"

definition ledger_round_trip :: "world \<Rightarrow> error + jsstring list" where
  "ledger_round_trip w =
     (case resave w of
        Inl e \<Rightarrow> Inl e
      | Inr w1 \<Rightarrow>
          (case resave w1 of
             Inl e \<Rightarrow> Inl e
           | Inr w2 \<Rightarrow> getProcessed w2))"

section \<open>Orchestrator\<close>

text \<open>
  The body of the \<^verbatim>\<open>try\<close> block up to the last \<^verbatim>\<open>await\<close>: the world it leaves, and
  the error that ended it, if one did.
  \<^verbatim>\<open>
  const note = await openNote(npath);
  const pnote = parseNote(npath, note);
  const tpl = notePdfTpl(pnote);
  await noteToPdf(pnote.filename, tpl);
  await noteSaveToMd(pnote.filename, pnote.content);
  \<close>
\<close>

definition pipeline :: "env \<Rightarrow> world \<Rightarrow> jsstring \<Rightarrow> world \<times> error option" where
  "pipeline env w npath =
     (case openNote env w npath of
        Inl e \<Rightarrow> (w, Some e)
      | Inr note \<Rightarrow>
          (case parseNote npath note of
             Inl e \<Rightarrow> (w, Some e)
           | Inr pnote \<Rightarrow>
               (let tpl = notePdfTpl pnote in
                case noteToPdf env w (p_filename pnote) tpl of
                  Inl e \<Rightarrow> (w, Some e)
                | Inr w1 \<Rightarrow>
                    (case noteSaveToMd w1 (p_filename pnote) (p_content pnote) of
                       Inl e \<Rightarrow> (w1, Some e)
                     | Inr w2 \<Rightarrow> (w2, None)))))"

text \<open>The variables of \<^verbatim>\<open>main\<close> that the loop changes, and the world.\<close>

record loop_state =
  sys :: world
  processed :: "jsstring list"
  count :: nat

text \<open>
  One turn of the loop of \<^verbatim>\<open>main\<close>:
  \<^verbatim>\<open>
  if (!processed.includes(npath)) {
      console.log(`>> Processing "${npath}"...`);
      try {
          ...
          processed.push(npath);
          count += 1;
      } catch (e) {
          console.log(`>> Error "${npath}"...\n\tMessage: "${e.message}"`);
      }
  } else {
      console.log(`>> Skipping "${npath}"...`);
  }
  \<close>
\<close>

definition process_note :: "env \<Rightarrow> loop_state \<Rightarrow> jsstring \<Rightarrow> loop_state" where
  "process_note env st npath =
     (if npath \<notin> set (processed st) then
        (case pipeline env (console_log (Processing npath) (sys st)) npath of
           (w, None) \<Rightarrow>
             st\<lparr>sys := w, processed := processed st @ [npath], count := count st + 1\<rparr>
         | (w, Some e) \<Rightarrow> st\<lparr>sys := console_log (Error npath e) w\<rparr>)
      else st\<lparr>sys := console_log (Skipping npath) (sys st)\<rparr>)"

text \<open>The loop \<^verbatim>\<open>for (let i = 0, n = notes.length; i < n; i += 1)\<close> over the files.\<close>

fun process_notes :: "env \<Rightarrow> loop_state \<Rightarrow> jsstring list \<Rightarrow> loop_state" where
  "process_notes env st [] = st"
| "process_notes env st (npath # notes) = process_notes env (process_note env st npath) notes"

text \<open>
  \<^verbatim>\<open>fs.writeFile(p, data)\<close> with the flag \<^verbatim>\<open>w\<close> first opens \<open>p\<close>, which creates the
  file or truncates it to no bytes, and writes the data once the file is open. The open
  is issued by the call itself; the data are written in a later turn of the event loop.
  \<open>writeFile_started\<close> is the world in which the open has taken effect and the data have
  not been written; an open that fails leaves the file as it was.
\<close>

definition writeFile_started :: "world \<Rightarrow> jsstring \<Rightarrow> world" where
  "writeFile_started w p = (if can_write w p then w\<lparr>files := (files w)(p \<mapsto> [])\<rparr> else w)"

text \<open>\<^verbatim>\<open>updateProcessed(processed)\<close> called and not awaited.\<close>

definition updateProcessed_started :: "world \<Rightarrow> jsstring list \<Rightarrow> world" where
  "updateProcessed_started w ledger =
     (case updateProcessed_write ledger of (p, d) \<Rightarrow> writeFile_started w p)"

text \<open>
  How the process ends: the world at exit, the exit code, and the writes whose data were
  still to be written when \<^verbatim>\<open>process.exit\<close> was called. \<^verbatim>\<open>process.exit\<close> ends the
  process in the turn that calls it, so the data of such a write never reach the file.
\<close>

record outcome =
  final :: world
  exit_code :: nat
  pending :: "(jsstring \<times> jsstring) list"

text \<open>
  \<^verbatim>\<open>
  const main = async () => {
      const processed = await getProcessed();
      let count = 0;
      const notes = await getNotes();
      for (...) { ... }
      updateProcessed(processed);
      console.log(`Completed! Processed ${count} notes`);
      process.exit(0);
  };
  \<close>
  \<^verbatim>\<open>getProcessed\<close>, \<^verbatim>\<open>getNotes\<close> and the calls in the loop are awaited;
  \<^verbatim>\<open>updateProcessed(processed)\<close> is not: it has opened \<^verbatim>\<open>processed.txt\<close> for writing
  when \<^verbatim>\<open>process.exit(0)\<close> ends the process, and the ledger is never written to it. An
  error of \<^verbatim>\<open>getProcessed\<close> or \<^verbatim>\<open>getNotes\<close> is not caught and ends \<^verbatim>\<open>main\<close>.
\<close>

definition main :: "env \<Rightarrow> world \<Rightarrow> error + outcome" where
  "main env w =
     (case getProcessed w of
        Inl e \<Rightarrow> Inl e
      | Inr ledger \<Rightarrow>
          (case glob env w of
             Inl e \<Rightarrow> Inl e
           | Inr notes \<Rightarrow>
               (let st = process_notes env \<lparr>sys = w, processed = ledger, count = 0\<rparr> notes
                in Inr \<lparr>final = console_log (Completed (count st))
                                  (updateProcessed_started (sys st) (processed st)),
                        exit_code = 0,
                        pending = [updateProcessed_write (processed st)]\<rparr>)))"

section \<open>Properties of the slug generator\<close>

lemma slug_char_not_space: "slug_char c \<Longrightarrow> \<not> is_space c"
  by (auto simp: slug_char_def is_space_def is_lower_def is_upper_def is_digit_def
      word_le_nat_alt)

lemma slug_char_keep: "slug_char c \<Longrightarrow> slug_keep c"
  by (auto simp: slug_char_def slug_keep_def)

lemma slug_keep_cases: "slug_keep c \<Longrightarrow> slug_char c \<or> c = 0x20"
  by (auto simp: slug_char_def slug_keep_def)

lemma replace_spaces_slug_chars:
  "list_all slug_keep xs \<Longrightarrow> list_all slug_char (replace_spaces xs)"
proof (induction xs rule: replace_spaces.induct)
  case 1
  show ?case by simp
next
  case (2 c cs)
  have rest: "list_all slug_keep (dropWhile is_space cs)"
    using "2.prems" by (auto simp: list_all_iff dest: set_dropWhileD)
  show ?case
  proof (cases "is_space c")
    case True
    with 2 rest show ?thesis by (simp add: slug_char_def)
  next
    case False
    with "2.prems" have "slug_char c"
      using slug_keep_cases[of c] by (auto simp: is_space_def)
    with False 2 show ?thesis by simp
  qed
qed

lemma replace_spaces_fixed:
  "list_all slug_char xs \<Longrightarrow> replace_spaces xs = xs"
  by (induction xs) (auto simp: slug_char_not_space)

lemma filter_keep_fixed:
  "list_all slug_char xs \<Longrightarrow> filter slug_keep xs = xs"
  by (induction xs) (auto simp: slug_char_keep)

lemma toSlug_chars: "list_all slug_char (toSlug x)"
  unfolding toSlug_def
  by (rule replace_spaces_slug_chars) (simp add: list_all_iff)

text \<open>
  Claim C8. The slug generator is idempotent, \<open>toSlug (toSlug x) = toSlug x\<close> for every
  string \<open>x\<close>, and every code unit of its output is one of \<^verbatim>\<open>[A-Za-z0-9_]\<close>.
\<close>

theorem toSlug_idempotent_and_safe:
  "toSlug (toSlug x) = toSlug x \<and> list_all slug_char (toSlug x)"
proof -
  have safe: "list_all slug_char (toSlug x)"
    by (rule toSlug_chars)
  have "toSlug (toSlug x) = replace_spaces (toSlug x)"
    using filter_keep_fixed[OF safe] by (simp add: toSlug_def)
  also have "\<dots> = toSlug x"
    by (rule replace_spaces_fixed[OF safe])
  finally show ?thesis using safe by simp
qed

theorem toSlug_idempotent_and_safe_witness:
  "toSlug (js ''My  note: a/b!'') = js ''My_note_ab''
   \<and> toSlug (toSlug (js ''My  note: a/b!'')) = js ''My_note_ab''
   \<and> list_all slug_char (js ''My_note_ab'')"
proof -
  have v: "toSlug (js ''My  note: a/b!'') = js ''My_note_ab''"
    by (simp add: toSlug_def js_def slug_keep_def is_lower_def is_upper_def is_digit_def
        is_space_def)
  show ?thesis
    using toSlug_idempotent_and_safe[of "js ''My  note: a/b!''"] by (simp add: v)
qed

section \<open>Properties of the note parser\<close>

lemma js_hash_space: "js ''# '' = [0x23, 0x20]"
  by (simp add: js_def)

lemma heading_search_iff:
  "heading_search s \<longleftrightarrow> (\<exists>pre post. s = pre @ js ''# '' @ post)"
proof (induction s)
  case Nil
  show ?case by (simp add: js_hash_space)
next
  case (Cons c cs)
  show ?case
  proof
    assume "heading_search (c # cs)"
    then consider "take 2 (c # cs) = js ''# ''" | "heading_search cs" by auto
    then show "\<exists>pre post. c # cs = pre @ js ''# '' @ post"
    proof cases
      case 1
      then have "c # cs = [] @ js ''# '' @ drop 2 (c # cs)"
        by (metis append_Nil append_take_drop_id)
      then show ?thesis by blast
    next
      case 2
      with Cons obtain pre post where "cs = pre @ js ''# '' @ post" by blast
      then have "c # cs = (c # pre) @ js ''# '' @ post" by simp
      then show ?thesis by blast
    qed
  next
    assume "\<exists>pre post. c # cs = pre @ js ''# '' @ post"
    then obtain pre post where e: "c # cs = pre @ js ''# '' @ post" by blast
    show "heading_search (c # cs)"
    proof (cases pre)
      case Nil
      with e have "take 2 (c # cs) = js ''# ''" by (simp add: js_hash_space)
      then show ?thesis by simp
    next
      case (Cons p ps)
      with e have "cs = ps @ js ''# '' @ post" by simp
      with Cons.IH have "heading_search cs" by blast
      then show ?thesis by simp
    qed
  qed
qed

lemma ci_length:
  "map canonicalize kw = map canonicalize (js ''Source:'') \<Longrightarrow> length kw = 7"
proof -
  assume "map canonicalize kw = map canonicalize (js ''Source:'')"
  then have "length (map canonicalize kw) = length (map canonicalize (js ''Source:''))"
    by (rule arg_cong)
  then show ?thesis by (simp add: js_def)
qed

lemma source_at_None_iff:
  "source_at s = None \<longleftrightarrow>
     \<not> (\<exists>kw c rest. s = kw @ c # rest
          \<and> map canonicalize kw = map canonicalize (js ''Source:'') \<and> is_space c)"
proof -
  have "source_at s \<noteq> None" if
    "s = kw @ c # rest" "map canonicalize kw = map canonicalize (js ''Source:'')" "is_space c"
    for kw c rest
    using that ci_length[OF that(2)] by (simp add: source_at_def Let_def)
  moreover have "\<exists>kw c rest. s = kw @ c # rest
          \<and> map canonicalize kw = map canonicalize (js ''Source:'') \<and> is_space c"
    if "source_at s \<noteq> None"
  proof -
    from that have k: "map canonicalize (take 7 s) = map canonicalize (js ''Source:'')"
      and r: "drop 7 s \<noteq> []" and sp: "is_space (hd (drop 7 s))"
      by (auto simp: source_at_def Let_def split: if_splits)
    from r have "s = take 7 s @ hd (drop 7 s) # tl (drop 7 s)" by simp
    with k sp show ?thesis by blast
  qed
  ultimately show ?thesis by blast
qed

lemma source_search_None_iff:
  "source_search s = None \<longleftrightarrow>
     \<not> (\<exists>pre kw c rest. s = pre @ kw @ c # rest
          \<and> map canonicalize kw = map canonicalize (js ''Source:'') \<and> is_space c)"
proof (induction s)
  case Nil
  show ?case by simp
next
  case (Cons x xs)
  show ?case
  proof
    assume n: "source_search (x # xs) = None"
    then have a: "source_at (x # xs) = None" and b: "source_search xs = None"
      by (auto split: option.splits)
    show "\<not> (\<exists>pre kw c rest. x # xs = pre @ kw @ c # rest
          \<and> map canonicalize kw = map canonicalize (js ''Source:'') \<and> is_space c)"
    proof
      assume "\<exists>pre kw c rest. x # xs = pre @ kw @ c # rest
          \<and> map canonicalize kw = map canonicalize (js ''Source:'') \<and> is_space c"
      then obtain pre kw c rest where e: "x # xs = pre @ kw @ c # rest"
        and k: "map canonicalize kw = map canonicalize (js ''Source:'')" and sp: "is_space c"
        by blast
      show False
      proof (cases pre)
        case Nil
        with e k sp a show False by (auto simp: source_at_None_iff)
      next
        case (Cons p ps)
        with e have "xs = ps @ kw @ c # rest" by simp
        with k sp b Cons.IH show False by blast
      qed
    qed
  next
    assume n: "\<not> (\<exists>pre kw c rest. x # xs = pre @ kw @ c # rest
          \<and> map canonicalize kw = map canonicalize (js ''Source:'') \<and> is_space c)"
    have a: "source_at (x # xs) = None"
      unfolding source_at_None_iff using n by (metis append_Nil)
    have "\<not> (\<exists>pre kw c rest. xs = pre @ kw @ c # rest
          \<and> map canonicalize kw = map canonicalize (js ''Source:'') \<and> is_space c)"
      using n by (metis append_Cons)
    with Cons.IH have "source_search xs = None" by blast
    with a show "source_search (x # xs) = None" by simp
  qed
qed

lemma source_at_match:
  assumes s: "s = kw @ ws @ g @ post"
    and kw: "map canonicalize kw = map canonicalize (js ''Source:'')"
    and ws: "ws \<noteq> []" "\<forall>c\<in>set ws. is_space c"
    and stop: "g @ post = [] \<or> \<not> is_space (hd (g @ post))"
    and g: "\<forall>c\<in>set g. \<not> is_line_terminator c"
    and post: "post = [] \<or> is_line_terminator (hd post)"
  shows "source_at s = Some (g, post)"
proof -
  have len: "length kw = 7" by (rule ci_length[OF kw])
  have t: "take 7 s = kw" and d: "drop 7 s = ws @ g @ post"
    using s len by simp_all
  have h: "is_space (hd (ws @ g @ post))" using ws by (cases ws) auto
  have "dropWhile is_space (ws @ g @ post) = dropWhile is_space (g @ post)"
    using ws(2) by simp
  also have "\<dots> = g @ post"
    using stop by (cases "g @ post") auto
  finally have dw: "dropWhile is_space (ws @ g @ post) = g @ post" .
  have tp: "takeWhile (\<lambda>c. \<not> is_line_terminator c) post = []"
    and dp: "dropWhile (\<lambda>c. \<not> is_line_terminator c) post = post"
    using post by (cases post; simp)+
  have tw: "takeWhile (\<lambda>c. \<not> is_line_terminator c) (g @ post) = g"
    using g tp by simp
  have dr: "dropWhile (\<lambda>c. \<not> is_line_terminator c) (g @ post) = post"
    using g dp by simp
  show ?thesis
    using kw ws(1) h by (simp add: source_at_def Let_def t d dw tw dr)
qed

lemma source_at_Nil: "source_at [] = None"
  by (simp add: source_at_def js_def)

lemma source_search_first:
  assumes "source_at s = Some (g, post)"
    and "\<forall>i<length pre. source_at (drop i (pre @ s)) = None"
  shows "source_search (pre @ s) = Some (pre, g, post)"
  using assms(2)
proof (induction pre)
  case Nil
  from assms(1) obtain c cs where "s = c # cs"
    by (cases s) (auto simp: source_at_Nil)
  with assms(1) show ?case by simp
next
  case (Cons p ps)
  from Cons.prems have a: "source_at (p # ps @ s) = None" by force
  have "\<forall>i<length ps. source_at (drop i (ps @ s)) = None"
  proof (intro allI impI)
    fix i assume "i < length ps"
    then have "Suc i < length (p # ps)" by simp
    with Cons.prems have "source_at (drop (Suc i) ((p # ps) @ s)) = None" by blast
    then show "source_at (drop i (ps @ s)) = None" by simp
  qed
  with Cons.IH have "source_search (ps @ s) = Some (ps, g, post)" by blast
  with a show ?case by simp
qed

lemma parseNote_no_body: "textContent note = None \<Longrightarrow> parseNote npath note = Inl TypeError"
  by (simp add: parseNote_def)

lemma parseNote_no_match:
  assumes "textContent note = Some body" "source_search body = None"
  shows "parseNote npath note =
     Inr \<lparr>p_title = note_title npath note,
          p_heading = (if heading_search (js_join (js '','') (take 3 (split_lines body)))
                       then HTrue else HText (note_title npath note)),
          p_content = body,
          p_source = (case annotations note of
                         Some as \<Rightarrow> js_join (js '', '') (map url as)
                       | None \<Rightarrow> js ''N/A''),
          p_labels = js_join (js '', '')
                   (map label_name (case labels note of None \<Rightarrow> [] | Some ls \<Rightarrow> ls)),
          p_filename = toSlug (note_title npath note)\<rparr>"
  using assms by (simp add: parseNote_def Let_def)

lemma parseNote_match:
  assumes "textContent note = Some body" "source_search body = Some (pre, g, post)"
  shows "parseNote npath note =
     Inr \<lparr>p_title = note_title npath note,
          p_heading = (if heading_search (js_join (js '','') (take 3 (split_lines (pre @ post))))
                       then HTrue else HText (note_title npath note)),
          p_content = pre @ post,
          p_source = g,
          p_labels = js_join (js '', '')
                   (map label_name (case labels note of None \<Rightarrow> [] | Some ls \<Rightarrow> ls)),
          p_filename = toSlug (note_title npath note)\<rparr>"
  using assms by (simp add: parseNote_def Let_def)

lemma parseNote_heading:
  "parseNote npath note = Inr pn \<Longrightarrow>
   p_heading pn = (if heading_search (js_join (js '','') (take 3 (split_lines (p_content pn))))
                   then HTrue else HText (p_title pn))"
  by (auto simp: parseNote_def Let_def split: option.splits prod.splits)

lemma parseNote_title:
  "parseNote npath note = Inr pn \<Longrightarrow> p_title pn = note_title npath note"
  by (auto simp: parseNote_def Let_def split: option.splits prod.splits)

lemmas char_defs = js_def LF_def is_space_def is_line_terminator_def is_lower_def is_upper_def
  is_digit_def canonicalize_def

lemma first_matchI:
  assumes "\<forall>i<n. source_at (drop i body) = None"
  shows "\<forall>pre kw c rest.
           body = pre @ kw @ c # rest
           \<and> map canonicalize kw = map canonicalize (js ''Source:'') \<and> is_space c
           \<longrightarrow> n \<le> length pre"
proof (intro allI impI)
  fix pre kw c rest
  assume a: "body = pre @ kw @ c # rest
           \<and> map canonicalize kw = map canonicalize (js ''Source:'') \<and> is_space c"
  then have "drop (length pre) body = kw @ c # rest" by simp
  with a have "source_at (drop (length pre) body) \<noteq> None"
    unfolding source_at_None_iff by blast
  with assms show "n \<le> length pre" by (meson not_le)
qed

lemma first_matchD:
  assumes "\<forall>pre' kw c rest.
           pre @ s = pre' @ kw @ c # rest
           \<and> map canonicalize kw = map canonicalize (js ''Source:'') \<and> is_space c
           \<longrightarrow> length pre \<le> length pre'"
  shows "\<forall>i<length pre. source_at (drop i (pre @ s)) = None"
proof (intro allI impI)
  fix i assume i: "i < length pre"
  show "source_at (drop i (pre @ s)) = None"
  proof (rule ccontr)
    assume "source_at (drop i (pre @ s)) \<noteq> None"
    then obtain kw c rest where d: "drop i (pre @ s) = kw @ c # rest"
      and k: "map canonicalize kw = map canonicalize (js ''Source:'')" "is_space c"
      unfolding source_at_None_iff by blast
    have "pre @ s = take i (pre @ s) @ kw @ c # rest"
      using d by (metis append_take_drop_id)
    with k assms have "length pre \<le> length (take i (pre @ s))" by blast
    with i show False by simp
  qed
qed

text \<open>
  Claim C3, as the code has it. When the body holds a match of the pattern, that is
  \<^verbatim>\<open>Source:\<close> in any case (\<open>kw\<close>), then white space (\<open>ws\<close>, not empty and as long as it
  can be), then the text up to the next line terminator or the end (\<open>g\<close>), and no match
  starts further left, the parser returns \<open>g\<close> as the source and takes this match, and
  nothing else, out of the body: what precedes the match on its line (the end of \<open>pre\<close>)
  and the line break after it (the start of \<open>post\<close>) stay, and so does every later
  \<^verbatim>\<open>Source:\<close> in \<open>post\<close>.
\<close>

theorem parseNote_strips_first_source_match:
  assumes body: "textContent note = Some body"
    and split: "body = pre @ kw @ ws @ g @ post"
    and kw: "map canonicalize kw = map canonicalize (js ''Source:'')"
    and ws: "ws \<noteq> []" "\<forall>c\<in>set ws. is_space c"
    and stop: "g @ post = [] \<or> \<not> is_space (hd (g @ post))"
    and g: "\<forall>c\<in>set g. \<not> is_line_terminator c"
    and post: "post = [] \<or> is_line_terminator (hd post)"
    and first: "\<forall>pre' kw' c rest.
           body = pre' @ kw' @ c # rest
           \<and> map canonicalize kw' = map canonicalize (js ''Source:'') \<and> is_space c
           \<longrightarrow> length pre \<le> length pre'"
  shows "\<exists>pn. parseNote npath note = Inr pn \<and> p_source pn = g \<and> p_content pn = pre @ post"
proof -
  have at: "source_at (kw @ ws @ g @ post) = Some (g, post)"
    by (rule source_at_match[OF refl kw ws stop g post])
  have "\<forall>i<length pre. source_at (drop i (pre @ kw @ ws @ g @ post)) = None"
    by (rule first_matchD) (use first split in simp)
  from source_search_first[OF at this]
  have "source_search body = Some (pre, g, post)" by (simp add: split)
  from parseNote_match[OF body this] show ?thesis by simp
qed


lemmas eval_defs = char_defs source_at_def basename_def note_title_def parseNote_def Let_def
  toSlug_def slug_keep_def

theorem parseNote_strips_first_source_match_witness:
  "\<exists>pn. parseNote (js ''./keep/a.json'')
           \<lparr>title = Some (js ''T''),
            textContent = Some (js ''Source: http://x.com\<newline>hello''),
            labels = None, annotations = None\<rparr> = Inr pn
        \<and> p_source pn = js ''http://x.com'' \<and> p_content pn = js ''\<newline>hello''"
proof -
  let ?note = "\<lparr>title = Some (js ''T''),
            textContent = Some (js ''Source: http://x.com\<newline>hello''),
            labels = None, annotations = None\<rparr>"
  have "\<exists>pn. parseNote (js ''./keep/a.json'') ?note = Inr pn
        \<and> p_source pn = js ''http://x.com'' \<and> p_content pn = [] @ js ''\<newline>hello''"
    by (rule parseNote_strips_first_source_match[where kw = "js ''Source:''" and ws = "js '' ''"
          and body = "js ''Source: http://x.com\<newline>hello''"])
       (simp_all add: char_defs)
  then show ?thesis by simp
qed

text \<open>
  Claim C3 as it is written fails on the body
  \<^verbatim>\<open>"Source:x\nsee Source: a\nSource: b"\<close>. Its first line is \<^verbatim>\<open>Source:\<close> followed by
  text, but no white space follows the colon, so the pattern does not match there and
  the line stays. The match is \<^verbatim>\<open>Source: a\<close> in the second line: the source is \<^verbatim>\<open>a\<close>,
  only the match is taken out (\<^verbatim>\<open>see \<close> and the line break stay), and the content
  still has the lines \<^verbatim>\<open>Source:x\<close> and \<^verbatim>\<open>Source: b\<close>, the second of which the pattern
  matches again.
\<close>

theorem parseNote_source_line_counterexample:
  "parseNote (js ''./keep/a.json'')
     \<lparr>title = Some (js ''T''),
      textContent = Some (js ''Source:x\<newline>see Source: a\<newline>Source: b''),
      labels = None, annotations = None\<rparr>
   = Inr \<lparr>p_title = js ''T'', p_heading = HText (js ''T''),
          p_content = js ''Source:x\<newline>see \<newline>Source: b'',
          p_source = js ''a'', p_labels = [], p_filename = js ''T''\<rparr>
   \<and> source_search (js ''Source:x\<newline>see \<newline>Source: b'')
       = Some (js ''Source:x\<newline>see \<newline>'', js ''b'', [])"
  by (simp add: eval_defs)

text \<open>
  Claim C4. When the pattern has no match in the body, that is nowhere in it does white
  space follow \<^verbatim>\<open>Source:\<close> (in any case), the source is the \<^verbatim>\<open>url\<close> values of
  \<^verbatim>\<open>annotations\<close> joined with \<^verbatim>\<open>", "\<close> when the note has that field and \<^verbatim>\<open>N/A\<close> when it
  has not, and the content is the body unchanged.
\<close>

theorem parseNote_source_fallback:
  assumes "textContent note = Some body"
    and "\<not> (\<exists>pre kw c rest. body = pre @ kw @ c # rest
          \<and> map canonicalize kw = map canonicalize (js ''Source:'') \<and> is_space c)"
  shows "\<exists>pn. parseNote npath note = Inr pn \<and> p_content pn = body
     \<and> p_source pn = (case annotations note of
                         Some as \<Rightarrow> js_join (js '', '') (map url as)
                       | None \<Rightarrow> js ''N/A'')"
proof -
  from assms(2) have "source_search body = None"
    using source_search_None_iff[of body] by blast
  from parseNote_no_match[OF assms(1) this] show ?thesis by simp
qed

theorem parseNote_source_fallback_witness:
  "(\<exists>pn. parseNote (js ''./keep/a.json'')
           \<lparr>title = None, textContent = Some (js ''hello Source:x''), labels = None,
            annotations = Some [\<lparr>url = js ''a''\<rparr>, \<lparr>url = js ''b''\<rparr>]\<rparr> = Inr pn
         \<and> p_content pn = js ''hello Source:x'' \<and> p_source pn = js ''a, b'')
   \<and> (\<exists>pn. parseNote (js ''./keep/a.json'')
           \<lparr>title = None, textContent = Some (js ''hello Source:x''), labels = None,
            annotations = None\<rparr> = Inr pn
         \<and> p_content pn = js ''hello Source:x'' \<and> p_source pn = js ''N/A'')"
proof -
  have n: "source_search (js ''hello Source:x'') = None"
    by (simp add: char_defs source_at_def)
  have h: "\<not> (\<exists>pre kw c rest. js ''hello Source:x'' = pre @ kw @ c # rest
          \<and> map canonicalize kw = map canonicalize (js ''Source:'') \<and> is_space c)"
    using n source_search_None_iff[of "js ''hello Source:x''"] by blast
  show ?thesis
    using parseNote_source_fallback[OF _ h, of "\<lparr>title = None,
            textContent = Some (js ''hello Source:x''), labels = None,
            annotations = Some [\<lparr>url = js ''a''\<rparr>, \<lparr>url = js ''b''\<rparr>]\<rparr>" "js ''./keep/a.json''"]
      parseNote_source_fallback[OF _ h, of "\<lparr>title = None,
            textContent = Some (js ''hello Source:x''), labels = None,
            annotations = None\<rparr>" "js ''./keep/a.json''"]
    by (simp add: js_def)
qed

text \<open>
  Claim C5 on the file \<^verbatim>\<open>./keep/a.jsonb.json\<close> and a note without a title. The base name
  is \<^verbatim>\<open>a.jsonb.json\<close>, which is \<^verbatim>\<open>a.jsonb\<close> with the extension \<^verbatim>\<open>.json\<close>;
  \<^verbatim>\<open>.replace(".json", "")\<close> takes out the first \<^verbatim>\<open>.json\<close> of the name, not the one at
  its end, and the title is \<^verbatim>\<open>ab.json\<close>.
\<close>

theorem parseNote_title_fallback_slip:
  "basename (js ''./keep/a.jsonb.json'') = js ''a.jsonb'' @ js ''.json''
   \<and> parseNote (js ''./keep/a.jsonb.json'')
       \<lparr>title = None, textContent = Some (js ''x''), labels = None, annotations = None\<rparr>
     = Inr \<lparr>p_title = js ''ab.json'', p_heading = HText (js ''ab.json''),
            p_content = js ''x'', p_source = js ''N/A'', p_labels = [],
            p_filename = js ''abjson''\<rparr>"
  by (simp add: eval_defs)

text \<open>
  Where the claim does hold: a title that is present and not empty is the title, and
  without one the title is the base name less its extension when \<^verbatim>\<open>.json\<close> stands
  nowhere else in the base name.
\<close>

lemma note_title_present:
  "title note = Some t \<Longrightarrow> t \<noteq> [] \<Longrightarrow> note_title npath note = t"
  by (simp add: note_title_def)

lemma note_title_absent:
  "title note = None \<or> title note = Some [] \<Longrightarrow>
   note_title npath note = replace_first (js ''.json'') [] (basename npath)"
  by (auto simp: note_title_def)

lemma replace_first_suffix:
  assumes "\<forall>i<length stem. take (length pat) (drop i (stem @ pat)) \<noteq> pat"
  shows "replace_first pat [] (stem @ pat) = stem"
  using assms
proof (induction stem)
  case Nil
  show ?case by (cases pat) simp_all
next
  case (Cons c cs)
  from Cons.prems have a: "take (length pat) ((c # cs) @ pat) \<noteq> pat" by force
  have "\<forall>i<length cs. take (length pat) (drop i (cs @ pat)) \<noteq> pat"
  proof (intro allI impI)
    fix i assume "i < length cs"
    then have "Suc i < length (c # cs)" by simp
    with Cons.prems have "take (length pat) (drop (Suc i) ((c # cs) @ pat)) \<noteq> pat" by blast
    then show "take (length pat) (drop i (cs @ pat)) \<noteq> pat" by simp
  qed
  with Cons.IH have "replace_first pat [] (cs @ pat) = cs" by blast
  with a show ?case by simp
qed

lemma note_title_extension:
  assumes "title note = None \<or> title note = Some []"
    and "basename npath = stem @ js ''.json''"
    and "\<forall>i<length stem. take 5 (drop i (stem @ js ''.json'')) \<noteq> js ''.json''"
  shows "note_title npath note = stem"
proof -
  have "length (js ''.json'') = 5" by (simp add: js_def)
  with assms(3) have "replace_first (js ''.json'') [] (stem @ js ''.json'') = stem"
    by (intro replace_first_suffix) simp
  with assms(1,2) show ?thesis by (simp add: note_title_absent)
qed

text \<open>
  The pattern \<^verbatim>\<open>/# (.*)/\<close> matches the comma-joined first three lines exactly when
  \<^verbatim>\<open>#\<close> and a space stand somewhere in the content with fewer than three line feeds
  before them, that is in its first, second or third line: neither \<open>split_lines\<close> nor
  the commas of \<^verbatim>\<open>join()\<close> make or break an occurrence.
\<close>

lemma split_lines_not_Nil: "split_lines s \<noteq> []"
  by (induction s) (auto split: list.splits)

lemma split_lines_first:
  "split_lines s = l # ls \<Longrightarrow> l = takeWhile (\<lambda>c. c \<noteq> LF) s"
  by (induction s arbitrary: l ls) (auto simp: split_lines_not_Nil split: if_splits list.splits)

lemma heading_search_sep:
  assumes "c \<noteq> 0x23" "c \<noteq> 0x20"
  shows "heading_search (x @ c # y) \<longleftrightarrow> heading_search x \<or> heading_search y"
proof (induction x)
  case Nil
  show ?case using assms by (simp add: js_hash_space)
next
  case (Cons a x)
  have "take 2 (a # x @ c # y) = js ''# '' \<longleftrightarrow> take 2 (a # x) = js ''# ''"
    using assms by (cases x) (auto simp: js_hash_space)
  with Cons show ?case by auto
qed

lemma heading_search_join:
  "heading_search (js_join (js '','') ls) \<longleftrightarrow> (\<exists>l\<in>set ls. heading_search l)"
proof (induction ls rule: induct_list012)
  case 1
  show ?case by simp
next
  case (2 x)
  show ?case by simp
next
  case (3 x y ys)
  have "js '','' = [0x2C]" by (simp add: js_def)
  then have "heading_search (x @ js '','' @ js_join (js '','') (y # ys))
        \<longleftrightarrow> heading_search x \<or> heading_search (js_join (js '','') (y # ys))"
    using heading_search_sep[of "0x2C" x "js_join (js '','') (y # ys)"] by simp
  with 3 show ?case by simp
qed

lemma heading_in_lines:
  "(\<exists>l\<in>set (take n (split_lines s)). heading_search l) \<longleftrightarrow>
     (\<exists>pre post. s = pre @ js ''# '' @ post \<and> length (filter (\<lambda>c. c = LF) pre) < n)"
proof (induction s arbitrary: n)
  case Nil
  show ?case by (cases n) (simp_all add: js_hash_space)
next
  case (Cons c cs)
  show ?case
  proof (cases n)
    case 0
    then show ?thesis by simp
  next
    case (Suc m)
    show ?thesis
    proof (cases "c = LF")
      case True
      have "(\<exists>pre post. c # cs = pre @ js ''# '' @ post
                \<and> length (filter (\<lambda>c. c = LF) pre) < Suc m)
            \<longleftrightarrow> (\<exists>pre post. cs = pre @ js ''# '' @ post
                \<and> length (filter (\<lambda>c. c = LF) pre) < m)" (is "?A \<longleftrightarrow> ?B")
      proof
        assume ?A
        then obtain pre post where e: "c # cs = pre @ js ''# '' @ post"
          and k: "length (filter (\<lambda>c. c = LF) pre) < Suc m" by blast
        from e True obtain pre' where p: "pre = c # pre'"
          by (cases pre) (auto simp: js_hash_space LF_def)
        with e k True have "cs = pre' @ js ''# '' @ post"
          "length (filter (\<lambda>c. c = LF) pre') < m" by auto
        then show ?B by blast
      next
        assume ?B
        then obtain pre post where "cs = pre @ js ''# '' @ post"
          and "length (filter (\<lambda>c. c = LF) pre) < m" by blast
        with True have "c # cs = (c # pre) @ js ''# '' @ post"
          "length (filter (\<lambda>c. c = LF) (c # pre)) < Suc m" by auto
        then show ?A by blast
      qed
      moreover have "(\<exists>l\<in>set (take (Suc m) (split_lines (c # cs))). heading_search l)
            \<longleftrightarrow> (\<exists>l\<in>set (take m (split_lines cs)). heading_search l)"
        using True by simp
      ultimately show ?thesis using Cons[of m] Suc by simp
    next
      case False
      obtain l ls where sp: "split_lines cs = l # ls"
        using split_lines_not_Nil[of cs] by (cases "split_lines cs") auto
      have l: "l = takeWhile (\<lambda>c. c \<noteq> LF) cs" by (rule split_lines_first[OF sp])
      have t: "take 2 (c # l) = js ''# '' \<longleftrightarrow> take 2 (c # cs) = js ''# ''"
        unfolding l by (cases cs) (auto simp: js_hash_space LF_def)
      have lhs: "(\<exists>l\<in>set (take (Suc m) (split_lines (c # cs))). heading_search l)
            \<longleftrightarrow> take 2 (c # cs) = js ''# ''
                \<or> (\<exists>l\<in>set (take (Suc m) (split_lines cs)). heading_search l)"
        using False sp t by auto
      have rhs: "(\<exists>pre post. c # cs = pre @ js ''# '' @ post
                \<and> length (filter (\<lambda>c. c = LF) pre) < Suc m)
            \<longleftrightarrow> take 2 (c # cs) = js ''# ''
                \<or> (\<exists>pre post. cs = pre @ js ''# '' @ post
                \<and> length (filter (\<lambda>c. c = LF) pre) < Suc m)" (is "?A \<longleftrightarrow> ?T \<or> ?B")
      proof
        assume ?A
        then obtain pre post where e: "c # cs = pre @ js ''# '' @ post"
          and k: "length (filter (\<lambda>c. c = LF) pre) < Suc m" by blast
        show "?T \<or> ?B"
        proof (cases pre)
          case Nil
          with e have ?T by (simp add: js_hash_space)
          then show ?thesis ..
        next
          case (Cons p ps)
          with e k False have "cs = ps @ js ''# '' @ post"
            "length (filter (\<lambda>c. c = LF) ps) < Suc m" by auto
          then have ?B by blast
          then show ?thesis ..
        qed
      next
        assume "?T \<or> ?B"
        then show ?A
        proof
          assume ?T
          then have "c # cs = [] @ js ''# '' @ drop 2 (c # cs)"
            by (metis append_Nil append_take_drop_id)
          moreover have "length (filter (\<lambda>c. c = LF) []) < Suc m" by simp
          ultimately show ?A by blast
        next
          assume ?B
          then obtain pre post where "cs = pre @ js ''# '' @ post"
            and "length (filter (\<lambda>c. c = LF) pre) < Suc m" by blast
          with False have "c # cs = (c # pre) @ js ''# '' @ post"
            "length (filter (\<lambda>c. c = LF) (c # pre)) < Suc m" by auto
          then show ?A by blast
        qed
      qed
      show ?thesis using lhs rhs Cons[of "Suc m"] Suc by simp
    qed
  qed
qed

lemma heading_search_first_lines:
  "heading_search (js_join (js '','') (take 3 (split_lines s))) \<longleftrightarrow>
     (\<exists>pre post. s = pre @ js ''# '' @ post \<and> length (filter (\<lambda>c. c = LF) pre) < 3)"
  by (simp only: heading_search_join heading_in_lines)

lemma parseNote_heading_joined:
  assumes "parseNote npath note = Inr pn"
  shows "p_heading pn =
     (if \<exists>pre post. js_join (js '','') (take 3 (split_lines (p_content pn)))
                      = pre @ js ''# '' @ post
      then HTrue else HText (p_title pn))"
  using parseNote_heading[OF assms] by (simp only: heading_search_iff)

text \<open>
  Claim C6. The heading of the parsed note is \<^verbatim>\<open>true\<close> exactly when the marker, \<^verbatim>\<open>#\<close>
  followed by a space (what follows it may be empty), stands in one of the first three
  lines of the content, the body after the source has been taken out: the content is
  \<open>pre\<close>, the marker, \<open>post\<close>, and \<open>pre\<close> holds fewer than three line feeds. Otherwise
  the heading is the title of the parsed note.
\<close>

theorem parseNote_heading_first_three_lines:
  assumes "parseNote npath note = Inr pn"
  shows "p_heading pn =
     (if \<exists>pre post. p_content pn = pre @ js ''# '' @ post
                     \<and> length (filter (\<lambda>c. c = LF) pre) < 3
      then HTrue else HText (p_title pn))"
  using parseNote_heading[OF assms] by (simp only: heading_search_first_lines)

theorem parseNote_heading_first_three_lines_witness:
  "parseNote (js ''./keep/a.json'')
     \<lparr>title = Some (js ''Foo''), textContent = Some (js ''a\<newline>b\<newline># c''),
      labels = None, annotations = None\<rparr>
   = Inr \<lparr>p_title = js ''Foo'', p_heading = HTrue,
          p_content = js ''a\<newline>b\<newline># c'', p_source = js ''N/A'', p_labels = [],
          p_filename = js ''Foo''\<rparr>
   \<and> (\<exists>pre post. js ''a\<newline>b\<newline># c'' = pre @ js ''# '' @ post
                  \<and> length (filter (\<lambda>c. c = LF) pre) < 3)
   \<and> parseNote (js ''./keep/a.json'')
     \<lparr>title = Some (js ''Foo''), textContent = Some (js ''a\<newline>b\<newline>c\<newline># d''),
      labels = None, annotations = None\<rparr>
   = Inr \<lparr>p_title = js ''Foo'', p_heading = HText (js ''Foo''),
          p_content = js ''a\<newline>b\<newline>c\<newline># d'', p_source = js ''N/A'', p_labels = [],
          p_filename = js ''Foo''\<rparr>
   \<and> \<not> (\<exists>pre post. js ''a\<newline>b\<newline>c\<newline># d'' = pre @ js ''# '' @ post
                  \<and> length (filter (\<lambda>c. c = LF) pre) < 3)"
proof -
  let ?n1 = "\<lparr>title = Some (js ''Foo''), textContent = Some (js ''a\<newline>b\<newline># c''),
      labels = None, annotations = None\<rparr>"
  let ?p1 = "\<lparr>p_title = js ''Foo'', p_heading = HTrue,
          p_content = js ''a\<newline>b\<newline># c'', p_source = js ''N/A'', p_labels = [],
          p_filename = js ''Foo''\<rparr>"
  let ?n2 = "\<lparr>title = Some (js ''Foo''), textContent = Some (js ''a\<newline>b\<newline>c\<newline># d''),
      labels = None, annotations = None\<rparr>"
  let ?p2 = "\<lparr>p_title = js ''Foo'', p_heading = HText (js ''Foo''),
          p_content = js ''a\<newline>b\<newline>c\<newline># d'', p_source = js ''N/A'', p_labels = [],
          p_filename = js ''Foo''\<rparr>"
  have e1: "parseNote (js ''./keep/a.json'') ?n1 = Inr ?p1"
    by (simp add: eval_defs)
  have e2: "parseNote (js ''./keep/a.json'') ?n2 = Inr ?p2"
    by (simp add: eval_defs)
  from parseNote_heading_first_three_lines[OF e1]
  have h1: "\<exists>pre post. js ''a\<newline>b\<newline># c'' = pre @ js ''# '' @ post
                  \<and> length (filter (\<lambda>c. c = LF) pre) < 3"
    by (auto split: if_splits)
  from parseNote_heading_first_three_lines[OF e2]
  have h2: "\<not> (\<exists>pre post. js ''a\<newline>b\<newline>c\<newline># d'' = pre @ js ''# '' @ post
                  \<and> length (filter (\<lambda>c. c = LF) pre) < 3)"
    by (auto split: if_splits)
  show ?thesis using e1 e2 h1 h2 by simp
qed

section \<open>Properties of the templater\<close>

text \<open>
  Claim C7, as the code has it. The template is these lines, joined by line feeds: when
  the heading is not \<^verbatim>\<open>true\<close>, the line \<^verbatim>\<open># heading\<close> and an empty line; then the
  content, an empty line, the rule \<^verbatim>\<open>----\<close>, the line \<^verbatim>\<open>Source: source\<close>, an empty
  line, and the line \<^verbatim>\<open>Labels: labels\<close>. \<open>notePdfTpl\<close> is a total function of the
  parsed note alone: it reads and writes nothing else and has no error result.
\<close>

theorem notePdfTpl_layout:
  "notePdfTpl note =
     js_join [LF]
       ((case p_heading note of
           HTrue \<Rightarrow> []
         | HText h \<Rightarrow> [js ''# '' @ h, []])
        @ [p_content note, [], js ''----'', js ''Source: '' @ p_source note, [],
           js ''Labels: '' @ p_labels note])"
  by (cases "p_heading note") (simp_all add: notePdfTpl_def)

text \<open>
  Claim C7 as it is written puts the rule right after the content: for a note with the
  heading \<^verbatim>\<open>true\<close> its lines are the content, the rule, the source line, an empty line
  and the labels line. The template has an empty line more, between the content and the
  rule (\<^verbatim>\<open>${content}\n\n----\<close>).
\<close>

theorem notePdfTpl_layout_counterexample:
  "notePdfTpl \<lparr>p_title = js ''T'', p_heading = HTrue, p_content = js ''body'',
                p_source = js ''s'', p_labels = js ''l'', p_filename = js ''T''\<rparr>
   = js ''body\<newline>\<newline>----\<newline>Source: s\<newline>\<newline>Labels: l''
   \<and> notePdfTpl \<lparr>p_title = js ''T'', p_heading = HTrue, p_content = js ''body'',
                p_source = js ''s'', p_labels = js ''l'', p_filename = js ''T''\<rparr>
   \<noteq> js_join [LF] [js ''body'', js ''----'', js ''Source: s'', [], js ''Labels: l'']"
  by (simp add: notePdfTpl_def js_def LF_def)

section \<open>Properties of the ledger\<close>

lemmas fs_defs = readFile_def writeFile_def existsSync_def console_log_def
lemmas io_defs = fs_defs openNote_def noteToPdf_def noteSaveToMd_def getProcessed_def
  updateProcessed_def updateProcessed_write_def

lemma js_join_split_lines: "js_join [LF] (split_lines s) = s"
proof (induction s)
  case Nil
  show ?case by simp
next
  case (Cons c cs)
  show ?case
  proof (cases "c = LF")
    case True
    with Cons show ?thesis by (cases "split_lines cs") auto
  next
    case False
    with Cons show ?thesis
      by (cases "split_lines cs"; cases "tl (split_lines cs)") auto
  qed
qed

lemma resave_existing:
  assumes "files w processed_txt = Some c" "can_read w processed_txt" "can_write w processed_txt"
  shows "resave w = Inr (w\<lparr>files := (files w)(processed_txt \<mapsto> c)\<rparr>)"
  using assms by (simp add: resave_def io_defs js_join_split_lines)

lemma fun_upd_same_value: "m k = Some c \<Longrightarrow> m(k \<mapsto> c) = m"
  by (rule ext) simp

lemma resave_fixpoint:
  assumes "files w processed_txt = Some c" "can_read w processed_txt" "can_write w processed_txt"
  shows "resave w = Inr w"
  using resave_existing[OF assms] assms(1) by (simp add: fun_upd_same_value)

text \<open>
  Where the round trip holds: when \<^verbatim>\<open>processed.txt\<close> exists and can be read and
  written, loading it succeeds, \<^verbatim>\<open>save(load())\<close> leaves the world as it was (the file is
  rewritten with the contents it had), and so the ledger loaded after two rounds is the
  ledger loaded at the start, entry for entry. Without \<^verbatim>\<open>processed.txt\<close> the loaded
  ledger is empty.
\<close>

lemma ledger_round_trip_existing:
  assumes "existsSync w processed_txt" "can_read w processed_txt" "can_write w processed_txt"
  shows "(\<exists>ledger. getProcessed w = Inr ledger)
     \<and> resave w = Inr w
     \<and> ledger_round_trip w = getProcessed w
     \<and> getProcessed (w\<lparr>files := (files w)(processed_txt := None)\<rparr>) = Inr []"
proof -
  from assms(1) obtain c where c: "files w processed_txt = Some c"
    by (auto simp: existsSync_def)
  have r: "resave w = Inr w" by (rule resave_fixpoint[OF c assms(2,3)])
  have "getProcessed w = Inr (split_lines c)"
    using c assms(2) by (simp add: io_defs)
  moreover have "getProcessed (w\<lparr>files := (files w)(processed_txt := None)\<rparr>) = Inr []"
    by (simp add: io_defs)
  ultimately show ?thesis using r by (simp add: ledger_round_trip_def)
qed

lemma ledger_round_trip_existing_example:
  "ledger_round_trip
     \<lparr>files = [processed_txt \<mapsto> js ''./keep/a.json\<newline>./keep/b.json''],
      can_read = (\<lambda>p. True), can_write = (\<lambda>p. True), console = []\<rparr>
   = Inr [js ''./keep/a.json'', js ''./keep/b.json'']"
proof -
  let ?w = "\<lparr>files = [processed_txt \<mapsto> js ''./keep/a.json\<newline>./keep/b.json''],
      can_read = (\<lambda>p. True), can_write = (\<lambda>p. True), console = []\<rparr>"
  have "getProcessed ?w = Inr [js ''./keep/a.json'', js ''./keep/b.json'']"
    by (simp add: io_defs js_def LF_def)
  with ledger_round_trip_existing[of ?w] show ?thesis
    by (simp add: existsSync_def)
qed

text \<open>
  Claim C9 on a directory without \<^verbatim>\<open>processed.txt\<close>. The ledger loaded is empty, as
  the claim says. Saving it writes an empty file, and \<^verbatim>\<open>getProcessed\<close> reads an empty
  file as \<^verbatim>\<open>"".split("\n")\<close>, the one entry \<^verbatim>\<open>""\<close>, which is no file name: after the
  round trip the ledger has an entry more than at the start, where the branch for the
  missing file returns no entry for the same empty ledger.
\<close>

theorem ledger_round_trip_fresh:
  "getProcessed \<lparr>files = Map.empty, can_read = (\<lambda>p. True), can_write = (\<lambda>p. True),
                 console = []\<rparr> = Inr []
   \<and> ledger_round_trip \<lparr>files = Map.empty, can_read = (\<lambda>p. True), can_write = (\<lambda>p. True),
                 console = []\<rparr> = Inr [[]]"
  by (simp add: ledger_round_trip_def resave_def io_defs)

section \<open>Properties of the orchestrator\<close>

lemma pipeline_completes_iff:
  "pipeline env w0 npath = (w, None) \<longleftrightarrow>
     (\<exists>note pnote w1.
        openNote env w0 npath = Inr note
        \<and> parseNote npath note = Inr pnote
        \<and> noteToPdf env w0 (p_filename pnote) (notePdfTpl pnote) = Inr w1
        \<and> noteSaveToMd w1 (p_filename pnote) (p_content pnote) = Inr w)"
  by (auto simp: pipeline_def Let_def split: sum.splits)

lemma pipeline_fails_iff:
  "snd (pipeline env w0 npath) = Some e \<longleftrightarrow>
     openNote env w0 npath = Inl e
     \<or> (\<exists>note. openNote env w0 npath = Inr note
          \<and> (parseNote npath note = Inl e
              \<or> (\<exists>pnote. parseNote npath note = Inr pnote
                   \<and> (noteToPdf env w0 (p_filename pnote) (notePdfTpl pnote) = Inl e
                       \<or> (\<exists>w1. noteToPdf env w0 (p_filename pnote) (notePdfTpl pnote) = Inr w1
                            \<and> noteSaveToMd w1 (p_filename pnote) (p_content pnote) = Inl e)))))"
  by (auto simp: pipeline_def Let_def split: sum.splits)

text \<open>
  Claim C1. For a file that is not in the ledger, one turn of the loop runs the pipeline.
  It completes (\<open>r = None\<close>) exactly when reading, parsing, the PDF and the Markdown
  write all succeed (the template cannot fail). When a stage fails with an error \<open>e\<close>, the
  ledger and the counter stay as they were; when the pipeline completes, the path is
  appended to the ledger and the counter grows by one. Either way the turn returns a
  state, and the loop goes on with the files that remain.
\<close>

theorem process_note_isolates_failure:
  assumes "npath \<notin> set (processed st)"
    and "pipeline env (console_log (Processing npath) (sys st)) npath = (w, r)"
  shows "processed (process_note env st npath)
           = (case r of None \<Rightarrow> processed st @ [npath] | Some e \<Rightarrow> processed st)
     \<and> count (process_note env st npath)
           = (case r of None \<Rightarrow> count st + 1 | Some e \<Rightarrow> count st)
     \<and> (r = None \<longleftrightarrow>
          (\<exists>note pnote w1.
             openNote env (console_log (Processing npath) (sys st)) npath = Inr note
             \<and> parseNote npath note = Inr pnote
             \<and> noteToPdf env (console_log (Processing npath) (sys st)) (p_filename pnote)
                  (notePdfTpl pnote) = Inr w1
             \<and> noteSaveToMd w1 (p_filename pnote) (p_content pnote) = Inr w))
     \<and> process_notes env st (npath # rest)
           = process_notes env (process_note env st npath) rest"
proof -
  have a: "processed (process_note env st npath)
           = (case r of None \<Rightarrow> processed st @ [npath] | Some e \<Rightarrow> processed st)"
    using assms by (simp add: process_note_def split: option.splits)
  have b: "count (process_note env st npath)
           = (case r of None \<Rightarrow> count st + 1 | Some e \<Rightarrow> count st)"
    using assms by (simp add: process_note_def split: option.splits)
  have c: "r = None \<longleftrightarrow>
          (\<exists>note pnote w1.
             openNote env (console_log (Processing npath) (sys st)) npath = Inr note
             \<and> parseNote npath note = Inr pnote
             \<and> noteToPdf env (console_log (Processing npath) (sys st)) (p_filename pnote)
                  (notePdfTpl pnote) = Inr w1
             \<and> noteSaveToMd w1 (p_filename pnote) (p_content pnote) = Inr w)"
    using assms(2) pipeline_completes_iff[of env "console_log (Processing npath) (sys st)" npath w]
    by (cases r) auto
  show ?thesis using a b c by simp
qed


lemmas run_defs = process_note_def pipeline_def io_defs eval_defs notePdfTpl_def pdf_path_def
  md_path_def processed_txt_def

theorem process_note_isolates_failure_witness:
  "processed (process_note
      \<lparr>json_parse = (\<lambda>d. if d = js ''{'' then Inl ParseError
                            else Inr \<lparr>title = Some (js ''T''), textContent = Some (js ''x''),
                                      labels = None, annotations = None\<rparr>),
       render = (\<lambda>m. Inr (js ''%PDF'')),
       glob = (\<lambda>w. Inr [js ''./keep/a.json'', js ''./keep/b.json''])\<rparr>
      \<lparr>sys = \<lparr>files = [js ''./keep/a.json'' \<mapsto> js ''{'', js ''./keep/b.json'' \<mapsto> js ''{}''],
               can_read = (\<lambda>p. True), can_write = (\<lambda>p. True), console = []\<rparr>,
       processed = [], count = 0\<rparr>
      (js ''./keep/a.json'')) = []
   \<and> processed (process_notes
      \<lparr>json_parse = (\<lambda>d. if d = js ''{'' then Inl ParseError
                            else Inr \<lparr>title = Some (js ''T''), textContent = Some (js ''x''),
                                      labels = None, annotations = None\<rparr>),
       render = (\<lambda>m. Inr (js ''%PDF'')),
       glob = (\<lambda>w. Inr [js ''./keep/a.json'', js ''./keep/b.json''])\<rparr>
      \<lparr>sys = \<lparr>files = [js ''./keep/a.json'' \<mapsto> js ''{'', js ''./keep/b.json'' \<mapsto> js ''{}''],
               can_read = (\<lambda>p. True), can_write = (\<lambda>p. True), console = []\<rparr>,
       processed = [], count = 0\<rparr>
      [js ''./keep/a.json'', js ''./keep/b.json'']) = [js ''./keep/b.json'']
   \<and> count (process_notes
      \<lparr>json_parse = (\<lambda>d. if d = js ''{'' then Inl ParseError
                            else Inr \<lparr>title = Some (js ''T''), textContent = Some (js ''x''),
                                      labels = None, annotations = None\<rparr>),
       render = (\<lambda>m. Inr (js ''%PDF'')),
       glob = (\<lambda>w. Inr [js ''./keep/a.json'', js ''./keep/b.json''])\<rparr>
      \<lparr>sys = \<lparr>files = [js ''./keep/a.json'' \<mapsto> js ''{'', js ''./keep/b.json'' \<mapsto> js ''{}''],
               can_read = (\<lambda>p. True), can_write = (\<lambda>p. True), console = []\<rparr>,
       processed = [], count = 0\<rparr>
      [js ''./keep/a.json'', js ''./keep/b.json'']) = 1"
proof -
  let ?env = "\<lparr>json_parse = (\<lambda>d. if d = js ''{'' then Inl ParseError
                            else Inr \<lparr>title = Some (js ''T''), textContent = Some (js ''x''),
                                      labels = None, annotations = None\<rparr>),
       render = (\<lambda>m. Inr (js ''%PDF'')),
       glob = (\<lambda>w. Inr [js ''./keep/a.json'', js ''./keep/b.json''])\<rparr>"
  let ?w = "\<lparr>files = [js ''./keep/a.json'' \<mapsto> js ''{'', js ''./keep/b.json'' \<mapsto> js ''{}''],
               can_read = (\<lambda>p. True), can_write = (\<lambda>p. True), console = []\<rparr>"
  let ?st = "\<lparr>sys = ?w, processed = [], count = 0\<rparr>"
  have p: "pipeline ?env (console_log (Processing (js ''./keep/a.json'')) (sys ?st))
             (js ''./keep/a.json'')
           = (console_log (Processing (js ''./keep/a.json'')) ?w, Some ParseError)"
    by (simp add: pipeline_def io_defs js_def)
  have n: "js ''./keep/a.json'' \<notin> set (processed ?st)" by simp
  note h = process_note_isolates_failure[OF n p, of "[js ''./keep/b.json'']"]
  have a: "processed (process_note ?env ?st (js ''./keep/a.json'')) = []"
    and c: "count (process_note ?env ?st (js ''./keep/a.json'')) = 0"
    and l: "process_notes ?env ?st [js ''./keep/a.json'', js ''./keep/b.json'']
            = process_notes ?env (process_note ?env ?st (js ''./keep/a.json''))
                [js ''./keep/b.json'']"
    using h by simp_all
  have s: "process_note ?env ?st (js ''./keep/a.json'')
           = ?st\<lparr>sys := console_log (Error (js ''./keep/a.json'') ParseError)
                          (console_log (Processing (js ''./keep/a.json'')) ?w)\<rparr>"
    using p by (simp add: process_note_def)
  have b: "processed (process_notes ?env (process_note ?env ?st (js ''./keep/a.json''))
                [js ''./keep/b.json'']) = [js ''./keep/b.json'']"
    and d: "count (process_notes ?env (process_note ?env ?st (js ''./keep/a.json''))
                [js ''./keep/b.json'']) = 1"
    unfolding s by (simp_all add: run_defs)
  show ?thesis using a b d l by simp
qed

lemma process_note_grows:
  "\<exists>new. processed (process_note env st npath) = processed st @ new
         \<and> count (process_note env st npath) = count st + length new"
  by (auto simp: process_note_def split: prod.splits option.splits)

lemma process_notes_grows:
  "\<exists>new. processed (process_notes env st ns) = processed st @ new
         \<and> count (process_notes env st ns) = count st + length new"
proof (induction ns arbitrary: st)
  case Nil
  show ?case by simp
next
  case (Cons n ns)
  obtain a where a: "processed (process_note env st n) = processed st @ a"
    "count (process_note env st n) = count st + length a"
    using process_note_grows by blast
  obtain b where b:
    "processed (process_notes env (process_note env st n) ns)
       = processed (process_note env st n) @ b"
    "count (process_notes env (process_note env st n) ns)
       = count (process_note env st n) + length b"
    using Cons.IH by blast
  have "processed (process_notes env st (n # ns)) = processed st @ (a @ b)
        \<and> count (process_notes env st (n # ns)) = count st + length (a @ b)"
    using a b by simp
  then show ?case by blast
qed

text \<open>
  Claim C10. When the PDF has been written and the Markdown write then fails, the turn
  leaves the ledger and the counter as they were, the PDF stays at
  \<^verbatim>\<open>./generated/{filename}.pdf\<close>, and the Markdown file is as it was before the turn.
\<close>

theorem markdown_failure_keeps_pdf:
  assumes new: "npath \<notin> set (processed st)"
    and opened: "openNote env (console_log (Processing npath) (sys st)) npath = Inr note"
    and parsed: "parseNote npath note = Inr pnote"
    and pdf: "noteToPdf env (console_log (Processing npath) (sys st)) (p_filename pnote)
                (notePdfTpl pnote) = Inr w1"
    and md: "noteSaveToMd w1 (p_filename pnote) (p_content pnote) = Inl e"
  shows "processed (process_note env st npath) = processed st
     \<and> count (process_note env st npath) = count st
     \<and> (\<exists>doc. render env (notePdfTpl pnote) = Inr doc
           \<and> files (sys (process_note env st npath)) (pdf_path (p_filename pnote)) = Some doc)
     \<and> files (sys (process_note env st npath)) (md_path (p_filename pnote))
         = files (sys st) (md_path (p_filename pnote))"
proof -
  have p: "pipeline env (console_log (Processing npath) (sys st)) npath = (w1, Some e)"
    using opened parsed pdf md by (simp add: pipeline_def)
  then have s: "process_note env st npath = st\<lparr>sys := console_log (Error npath e) w1\<rparr>"
    using new by (simp add: process_note_def)
  from pdf obtain doc where d: "render env (notePdfTpl pnote) = Inr doc"
    and w1: "w1 = (console_log (Processing npath) (sys st))
                   \<lparr>files := (files (console_log (Processing npath) (sys st)))
                      (pdf_path (p_filename pnote) \<mapsto> doc)\<rparr>"
    by (auto simp: noteToPdf_def writeFile_def split: sum.splits if_splits)
  have ne: "md_path (p_filename pnote) \<noteq> pdf_path (p_filename pnote)"
    by (simp add: md_path_def pdf_path_def js_def)
  show ?thesis
    using d ne by (simp add: s w1 console_log_def)
qed

theorem markdown_failure_keeps_pdf_witness:
  "processed (process_note
      \<lparr>json_parse = (\<lambda>d. Inr \<lparr>title = Some (js ''T''), textContent = Some (js ''x''),
                               labels = None, annotations = None\<rparr>),
       render = (\<lambda>m. Inr (js ''%PDF'')),
       glob = (\<lambda>w. Inr [js ''./keep/a.json''])\<rparr>
      \<lparr>sys = \<lparr>files = [js ''./keep/a.json'' \<mapsto> js ''{}''],
               can_read = (\<lambda>p. True), can_write = (\<lambda>p. p \<noteq> js ''./generated/T.md''),
               console = []\<rparr>,
       processed = [], count = 0\<rparr>
      (js ''./keep/a.json'')) = []
   \<and> files (sys (process_note
      \<lparr>json_parse = (\<lambda>d. Inr \<lparr>title = Some (js ''T''), textContent = Some (js ''x''),
                               labels = None, annotations = None\<rparr>),
       render = (\<lambda>m. Inr (js ''%PDF'')),
       glob = (\<lambda>w. Inr [js ''./keep/a.json''])\<rparr>
      \<lparr>sys = \<lparr>files = [js ''./keep/a.json'' \<mapsto> js ''{}''],
               can_read = (\<lambda>p. True), can_write = (\<lambda>p. p \<noteq> js ''./generated/T.md''),
               console = []\<rparr>,
       processed = [], count = 0\<rparr>
      (js ''./keep/a.json''))) (js ''./generated/T.pdf'') = Some (js ''%PDF'')"
proof -
  let ?note = "\<lparr>title = Some (js ''T''), textContent = Some (js ''x''),
                               labels = None, annotations = None\<rparr>"
  let ?env = "\<lparr>json_parse = (\<lambda>d. Inr ?note),
       render = (\<lambda>m. Inr (js ''%PDF'')),
       glob = (\<lambda>w. Inr [js ''./keep/a.json''])\<rparr>"
  let ?w = "\<lparr>files = [js ''./keep/a.json'' \<mapsto> js ''{}''],
               can_read = (\<lambda>p. True), can_write = (\<lambda>p. p \<noteq> js ''./generated/T.md''),
               console = []\<rparr>"
  let ?st = "\<lparr>sys = ?w, processed = [], count = 0\<rparr>"
  let ?w0 = "console_log (Processing (js ''./keep/a.json'')) (sys ?st)"
  let ?pn = "\<lparr>p_title = js ''T'', p_heading = HText (js ''T''), p_content = js ''x'',
              p_source = js ''N/A'', p_labels = [], p_filename = js ''T''\<rparr>"
  have n: "js ''./keep/a.json'' \<notin> set (processed ?st)" by simp
  have o: "openNote ?env ?w0 (js ''./keep/a.json'') = Inr ?note"
    by (simp add: io_defs)
  have q: "parseNote (js ''./keep/a.json'') ?note = Inr ?pn"
    by (simp add: eval_defs)
  have r: "noteToPdf ?env ?w0 (p_filename ?pn) (notePdfTpl ?pn)
           = Inr (?w0\<lparr>files := (files ?w0)(pdf_path (js ''T'') \<mapsto> js ''%PDF'')\<rparr>)"
    by (simp add: io_defs pdf_path_def js_def)
  have m: "noteSaveToMd (?w0\<lparr>files := (files ?w0)(pdf_path (js ''T'') \<mapsto> js ''%PDF'')\<rparr>)
             (p_filename ?pn) (p_content ?pn) = Inl IOError"
    by (simp add: io_defs md_path_def js_def)
  from markdown_failure_keeps_pdf[OF n o q r m]
  show ?thesis by (simp add: pdf_path_def js_def)
qed

subsection \<open>The ledger file at exit\<close>

text \<open>
  No awaited call of \<^verbatim>\<open>main\<close> writes \<^verbatim>\<open>processed.txt\<close>, and the call of
  \<^verbatim>\<open>updateProcessed\<close> has only opened it when the process exits: whatever the ledger
  in memory, a \<^verbatim>\<open>processed.txt\<close> that can be written is empty at exit, and the write of
  the ledger is pending.
\<close>

lemma generated_not_ledger:
  "pdf_path f \<noteq> processed_txt" "md_path f \<noteq> processed_txt"
  by (simp_all add: pdf_path_def md_path_def processed_txt_def js_def)

lemma pipeline_ledger_file:
  "files (fst (pipeline env w npath)) processed_txt = files w processed_txt"
  by (auto simp: pipeline_def noteToPdf_def noteSaveToMd_def writeFile_def Let_def
      generated_not_ledger generated_not_ledger[symmetric] split: sum.splits if_splits)

lemma pipeline_can_write:
  "can_write (fst (pipeline env w npath)) = can_write w"
  by (auto simp: pipeline_def noteToPdf_def noteSaveToMd_def writeFile_def Let_def
      split: sum.splits if_splits)

lemma process_note_ledger_file:
  "files (sys (process_note env st npath)) processed_txt = files (sys st) processed_txt"
proof -
  have "files (fst (pipeline env (console_log (Processing npath) (sys st)) npath)) processed_txt
        = files (sys st) processed_txt"
    by (simp add: pipeline_ledger_file console_log_def)
  then show ?thesis
    by (auto simp: process_note_def console_log_def split: prod.splits option.splits)
qed

lemma process_note_can_write:
  "can_write (sys (process_note env st npath)) = can_write (sys st)"
proof -
  have "can_write (fst (pipeline env (console_log (Processing npath) (sys st)) npath))
        = can_write (sys st)"
    by (simp add: pipeline_can_write console_log_def)
  then show ?thesis
    by (auto simp: process_note_def console_log_def split: prod.splits option.splits)
qed

lemma process_notes_ledger_file:
  "files (sys (process_notes env st ns)) processed_txt = files (sys st) processed_txt"
  by (induction ns arbitrary: st) (simp_all add: process_note_ledger_file)

lemma process_notes_can_write:
  "can_write (sys (process_notes env st ns)) = can_write (sys st)"
  by (induction ns arbitrary: st) (simp_all add: process_note_can_write)

lemma main_ledger_file:
  assumes "main env w = Inr out"
  shows "files (final out) processed_txt
           = (if can_write w processed_txt then Some [] else files w processed_txt)
     \<and> length (pending out) = 1"
  using assms
  by (auto simp: main_def Let_def console_log_def updateProcessed_started_def
      updateProcessed_write_def writeFile_started_def process_notes_ledger_file
      process_notes_can_write split: sum.splits)

lemma main_exit_state:
  assumes "main env w = Inr out"
  shows "\<exists>ledger ns st. getProcessed w = Inr ledger \<and> glob env w = Inr ns
     \<and> st = process_notes env \<lparr>sys = w, processed = ledger, count = 0\<rparr> ns
     \<and> pending out = [(processed_txt, js_join [LF] (processed st))]
     \<and> (\<exists>new. processed st = ledger @ new \<and> count st = length new)"
  using assms process_notes_grows[of env "\<lparr>sys = w, processed = _, count = 0\<rparr>"]
  by (auto simp: main_def Let_def updateProcessed_write_def split: sum.splits)

text \<open>
  Claim C2 on a run that starts with \<^verbatim>\<open>./keep/old.json\<close> in \<^verbatim>\<open>processed.txt\<close> and
  finds that note and a new one, \<^verbatim>\<open>./keep/a.json\<close>, which is converted. The run ends
  with exit code 0 and reports one note; the ledger in memory is the two paths, and its
  write to \<^verbatim>\<open>./processed.txt\<close> is still pending at \<^verbatim>\<open>process.exit(0)\<close>. The last
  update of the file is the open of that write, which has emptied it: at exit
  \<^verbatim>\<open>processed.txt\<close> has no bytes, and the entry it had is lost as well.
\<close>

theorem main_exits_before_ledger_write:
  "main
     \<lparr>json_parse = (\<lambda>d. Inr \<lparr>title = Some (js ''T''), textContent = Some (js ''x''),
                              labels = None, annotations = None\<rparr>),
      render = (\<lambda>m. Inr (js ''%PDF'')),
      glob = (\<lambda>w. Inr [js ''./keep/a.json'', js ''./keep/old.json''])\<rparr>
     \<lparr>files = [js ''./keep/a.json'' \<mapsto> js ''{}'',
               js ''./keep/old.json'' \<mapsto> js ''{}'',
               js ''./processed.txt'' \<mapsto> js ''./keep/old.json''],
      can_read = (\<lambda>p. True), can_write = (\<lambda>p. True), console = []\<rparr>
   = Inr \<lparr>final =
            \<lparr>files = [js ''./keep/a.json'' \<mapsto> js ''{}'',
                      js ''./keep/old.json'' \<mapsto> js ''{}'',
                      js ''./processed.txt'' \<mapsto> js ''./keep/old.json'',
                      js ''./generated/T.pdf'' \<mapsto> js ''%PDF'',
                      js ''./generated/T.md'' \<mapsto> js ''x'',
                      js ''./processed.txt'' \<mapsto> []],
             can_read = (\<lambda>p. True), can_write = (\<lambda>p. True),
             console = [Processing (js ''./keep/a.json''), Skipping (js ''./keep/old.json''),
                        Completed 1]\<rparr>,
          exit_code = 0,
          pending = [(js ''./processed.txt'',
                      js ''./keep/old.json\<newline>./keep/a.json'')]\<rparr>
   \<and> [js ''./keep/a.json'' \<mapsto> js ''{}'',
       js ''./keep/old.json'' \<mapsto> js ''{}'',
       js ''./processed.txt'' \<mapsto> js ''./keep/old.json'',
       js ''./generated/T.pdf'' \<mapsto> js ''%PDF'',
       js ''./generated/T.md'' \<mapsto> js ''x'',
       js ''./processed.txt'' \<mapsto> []] (js ''./processed.txt'') = Some []"
  by (simp add: main_def run_defs updateProcessed_started_def writeFile_started_def)

end
